theory Spec2Isabelle
  imports Complex_Main "HOL-Library.Word"
begin

unbundle bit_operations_syntax

section \<open>Data model\<close>

text \<open>
  The conversion code of \<^verbatim>\<open>src/blueprints/main.py\<close> works on three kinds of data:
  RGB bitmaps (three 8-bit channels per pixel), palette images of PIL mode \<^verbatim>\<open>P\<close>
  (one 8-bit palette index per pixel plus the palette itself) and byte strings.
  A bitmap is a list of rows, row 0 first, each row left to right.
\<close>

type_synonym u8 = "8 word"

type_synonym rgb = "nat \<times> nat \<times> nat"

type_synonym rgb_image = "rgb list list"

record p_image =
  palette :: "rgb list"
  pixels :: "u8 list list"

text \<open>Python exceptions are values; a function that can raise returns \<open>error + 'a\<close>.\<close>

datatype error =
  ValueError
  | RuntimeError string
  | UnidentifiedImageError
  | ZeroDivisionError

section \<open>Bit packer (\<^verbatim>\<open>convert_to_display_format\<close>, lines 72--77)\<close>

text \<open>
  \<^verbatim>\<open>flat[0::2]\<close> is \<open>every_other flat\<close> and \<^verbatim>\<open>flat[1::2]\<close> is
  \<open>every_other (drop 1 flat)\<close>: on a list of odd length the first slice is one longer
  than the second.
\<close>

fun every_other :: "'a list \<Rightarrow> 'a list" where
  "every_other [] = []"
| "every_other [x] = [x]"
| "every_other (x # y # xs) = x # every_other xs"

text \<open>\<^verbatim>\<open>ndarray.flatten()\<close> of a two-dimensional array: C order, that is row-major.\<close>

definition flatten :: "'a list list \<Rightarrow> 'a list" where
  "flatten rows = concat rows"

text \<open>\<^verbatim>\<open>a << k\<close> on a \<^verbatim>\<open>uint8\<close> array stays \<^verbatim>\<open>uint8\<close>: bits shifted past bit 7 are lost.\<close>

definition np_left_shift :: "u8 list \<Rightarrow> nat \<Rightarrow> u8 list" where
  "np_left_shift a k = map (push_bit k) a"

text \<open>
  \<^verbatim>\<open>a | b\<close> on one-dimensional arrays follows numpy's broadcasting: equal lengths
  combine element by element, an operand of length 1 is stretched to the other's length
  (also to length 0), and any other pair of lengths raises \<^verbatim>\<open>ValueError\<close>
  (operands could not be broadcast together).
\<close>

definition np_bitwise_or :: "u8 list \<Rightarrow> u8 list \<Rightarrow> error + u8 list" where
  "np_bitwise_or a b =
     (if length a = length b then Inr (map2 (OR) a b)
      else if length a = 1 then Inr (map (\<lambda>y. hd a OR y) b)
      else if length b = 1 then Inr (map (\<lambda>x. x OR hd b) a)
      else Inl ValueError)"

text \<open>
  Lines 73--77: \<^verbatim>\<open>flat = pixels.flatten(); packed = (flat[0::2] << 4) | flat[1::2];
  return bytes(packed)\<close>.
\<close>

definition pack_pixels :: "u8 list list \<Rightarrow> error + u8 list" where
  "pack_pixels px =
     (let flat = flatten px
      in np_bitwise_or (np_left_shift (every_other flat) 4) (every_other (drop 1 flat)))"

text \<open>
  The reader of the packed buffer, as the specification words it: each byte yields its
  high nibble, then its low nibble.
\<close>

definition unpack :: "u8 list \<Rightarrow> u8 list" where
  "unpack bs = concat (map (\<lambda>b. [drop_bit 4 b, b AND 15]) bs)"

section \<open>Palette table (\<^verbatim>\<open>_create_palette_image\<close>, lines 26--51)\<close>

text \<open>
  \<^verbatim>\<open>palette_data\<close> is the flat list of 768 channel values handed to
  \<^verbatim>\<open>putpalette\<close>: the six colours, then \<^verbatim>\<open>[0] * (768 - 18)\<close>.
\<close>

definition palette_data :: "nat list" where
  "palette_data =
     [0, 0, 0,
      255, 255, 255,
      0, 128, 0,
      0, 0, 255,
      255, 0, 0,
      255, 255, 0] @ replicate (768 - 18) 0"

text \<open>\<^verbatim>\<open>Image.putpalette\<close> reads the flat list three values at a time.\<close>

fun putpalette :: "nat list \<Rightarrow> rgb list" where
  "putpalette (r # g # b # rest) = (r, g, b) # putpalette rest"
| "putpalette _ = []"

text \<open>
  \<^verbatim>\<open>Image.new('P', size)\<close>: all pixels 0. Its palette is replaced before it is
  read, so it is left empty here.
\<close>

definition Image_new_P :: "nat \<times> nat \<Rightarrow> p_image" where
  "Image_new_P sz = \<lparr>palette = [], pixels = replicate (snd sz) (replicate (fst sz) 0)\<rparr>"

text \<open>\<^verbatim>\<open>pixels[x, y] = v\<close> on the pixel access object of an image.\<close>

definition putpixel :: "p_image \<Rightarrow> nat \<times> nat \<Rightarrow> u8 \<Rightarrow> p_image" where
  "putpixel im xy v =
     im\<lparr>pixels := (pixels im)[snd xy := (pixels im ! snd xy)[fst xy := v]]\<rparr>"

text \<open>The function is \<^verbatim>\<open>_create_palette_image\<close> in the source.\<close>

definition create_palette_image :: p_image where
  "create_palette_image =
     (let palette_img = Image_new_P (6, 1);
          palette_img = palette_img\<lparr>palette := putpalette palette_data\<rparr>
      in fold (\<lambda>i im. putpixel im (i, 0) (of_nat i)) [0..<6] palette_img)"

definition PALETTE_IMAGE :: p_image where
  "PALETTE_IMAGE = create_palette_image"

text \<open>The six colours of lines 33--38, in index order, for stating results.\<close>

definition six_colours :: "rgb list" where
  "six_colours = [(0, 0, 0), (255, 255, 255), (0, 128, 0), (0, 0, 255), (255, 0, 0), (255, 255, 0)]"

section \<open>Quantizer (\<^verbatim>\<open>resize_and_dither_image\<close>, lines 54--65)\<close>

text \<open>
  Modelled from the spec: \<^verbatim>\<open>Image.quantize(colors=6, palette=PALETTE_IMAGE,
  dither=FLOYDSTEINBERG)\<close> is Pillow's code, which is not among the sources. The
  definitions from \<open>of_rgb\<close> to \<open>quantize\<close> follow section 4.3 of the specification:
  pixels are visited in raster order; the working value of a pixel is its colour plus the
  error diffused to it; the nearest palette entry by Euclidean distance in RGB is chosen
  (squared distances are compared; among equally near entries the lowest index wins);
  the error is the working value minus the chosen colour, and the fractions 7/16, 3/16,
  5/16 and 1/16 of it go to the right, below-left, below and below-right neighbours
  that exist. Arithmetic is exact (rational numbers). The palette searched is the whole
  palette of the palette image, all 256 entries.
\<close>

type_synonym colour = "rat \<times> rat \<times> rat"

definition of_rgb :: "rgb \<Rightarrow> colour" where
  "of_rgb p = (case p of (r, g, b) \<Rightarrow> (of_nat r, of_nat g, of_nat b))"

definition cadd :: "colour \<Rightarrow> colour \<Rightarrow> colour" where
  "cadd c d = (case (c, d) of ((r, g, b), (r', g', b')) \<Rightarrow> (r + r', g + g', b + b'))"

definition csub :: "colour \<Rightarrow> colour \<Rightarrow> colour" where
  "csub c d = (case (c, d) of ((r, g, b), (r', g', b')) \<Rightarrow> (r - r', g - g', b - b'))"

definition cscale :: "rat \<Rightarrow> colour \<Rightarrow> colour" where
  "cscale k c = (case c of (r, g, b) \<Rightarrow> (k * r, k * g, k * b))"

definition czero :: colour where
  "czero = (0, 0, 0)"

definition dist2 :: "colour \<Rightarrow> colour \<Rightarrow> rat" where
  "dist2 c d = (case csub c d of (r, g, b) \<Rightarrow> r * r + g * g + b * b)"

text \<open>
  One pass over the palette entries from index \<open>i\<close> on; \<open>best\<close> is the nearest entry
  so far with its distance, replaced only by a strictly nearer one.
\<close>

fun nearest_scan :: "colour \<Rightarrow> rgb list \<Rightarrow> nat \<Rightarrow> nat \<times> rat \<Rightarrow> nat \<times> rat" where
  "nearest_scan c [] i best = best"
| "nearest_scan c (p # ps) i best =
     (if dist2 c (of_rgb p) < snd best
      then nearest_scan c ps (Suc i) (i, dist2 c (of_rgb p))
      else nearest_scan c ps (Suc i) best)"

definition nearest :: "rgb list \<Rightarrow> colour \<Rightarrow> nat" where
  "nearest pal c =
     (case pal of [] \<Rightarrow> 0 | p # ps \<Rightarrow> fst (nearest_scan c ps 1 (0, dist2 c (of_rgb p))))"

definition getcolor :: "rgb list \<Rightarrow> nat \<Rightarrow> rgb" where
  "getcolor pal i = (if i < length pal then pal ! i else (0, 0, 0))"

text \<open>The error rows: adding to a position outside the row does nothing.\<close>

definition add_at :: "colour list \<Rightarrow> nat \<Rightarrow> colour \<Rightarrow> colour list" where
  "add_at es i v = (if i < length es then es[i := cadd (es ! i) v] else es)"

definition err_at :: "colour list \<Rightarrow> nat \<Rightarrow> colour" where
  "err_at es i = (if i < length es then es ! i else czero)"

text \<open>
  One row, from column \<open>x\<close> on: \<open>cur\<close> holds the errors diffused to this row, \<open>nxt\<close>
  those diffused to the row below. The result pairs each pixel's palette index with its
  quantization error, and returns the next row's errors.
\<close>

fun dither_row ::
  "rgb list \<Rightarrow> rgb list \<Rightarrow> nat \<Rightarrow> colour list \<Rightarrow> colour list \<Rightarrow> (nat \<times> colour) list \<times> colour list"
where
  "dither_row pal [] x cur nxt = ([], nxt)"
| "dither_row pal (p # ps) x cur nxt =
     (let w = cadd (of_rgb p) (err_at cur x);
          i = nearest pal w;
          e = csub w (of_rgb (getcolor pal i));
          cur = add_at cur (x + 1) (cscale (7 / 16) e);
          nxt = (if 0 < x then add_at nxt (x - 1) (cscale (3 / 16) e) else nxt);
          nxt = add_at nxt x (cscale (5 / 16) e);
          nxt = add_at nxt (x + 1) (cscale (1 / 16) e);
          rest = dither_row pal ps (x + 1) cur nxt
      in ((i, e) # fst rest, snd rest))"

fun dither_rows :: "rgb list \<Rightarrow> rgb_image \<Rightarrow> colour list \<Rightarrow> (nat \<times> colour) list list" where
  "dither_rows pal [] cur = []"
| "dither_rows pal (row # rows) cur =
     (let r = dither_row pal row 0 cur (replicate (length row) czero)
      in fst r # dither_rows pal rows (snd r))"

definition floyd_steinberg :: "rgb list \<Rightarrow> rgb_image \<Rightarrow> (nat \<times> colour) list list" where
  "floyd_steinberg pal img =
     dither_rows pal img (replicate (case img of [] \<Rightarrow> 0 | row # _ \<Rightarrow> length row) czero)"

text \<open>
  The quantized image carries the palette of the palette image; its pixels are the
  indices, as 8-bit values.
\<close>

definition quantize :: "rgb_image \<Rightarrow> p_image \<Rightarrow> p_image" where
  "quantize img palette_img =
     \<lparr>palette = palette palette_img,
      pixels = map (map (\<lambda>ie. of_nat (fst ie))) (floyd_steinberg (palette palette_img) img)\<rparr>"

text \<open>The quantization error left at each pixel, which is what gets diffused.\<close>

definition diffused_errors :: "rgb_image \<Rightarrow> p_image \<Rightarrow> colour list list" where
  "diffused_errors img palette_img = map (map snd) (floyd_steinberg (palette palette_img) img)"

text \<open>
  Lines 54--65. \<open>opener\<close> stands for \<^verbatim>\<open>Image.open(image_path).convert('RGB')\<close>, the
  decoder, which returns the bitmap or raises.
\<close>

definition resize_and_dither_image :: "(string \<Rightarrow> error + rgb_image) \<Rightarrow> string \<Rightarrow> error + p_image" where
  "resize_and_dither_image opener image_path =
     (case opener image_path of
        Inl e \<Rightarrow> Inl e
      | Inr img \<Rightarrow> Inr (quantize img PALETTE_IMAGE))"

text \<open>\<^verbatim>\<open>np.array(quantized, dtype=np.uint8)\<close>: the index of each pixel, row by row.\<close>

definition np_array :: "p_image \<Rightarrow> u8 list list" where
  "np_array im = pixels im"

text \<open>Lines 68--77.\<close>

definition convert_to_display_format :: "(string \<Rightarrow> error + rgb_image) \<Rightarrow> string \<Rightarrow> error + u8 list" where
  "convert_to_display_format opener image_path =
     (case resize_and_dither_image opener image_path of
        Inl e \<Rightarrow> Inl e
      | Inr quantized \<Rightarrow> pack_pixels (np_array quantized))"

text \<open>\<^verbatim>\<open>quantized.convert('RGB')\<close> (line 96): each index is replaced by its palette colour.\<close>

definition convert_RGB :: "p_image \<Rightarrow> rgb_image" where
  "convert_RGB im = map (map (\<lambda>i. getcolor (palette im) (unat i))) (pixels im)"

section \<open>Geometry fitter (\<^verbatim>\<open>_resize_and_rotate_image\<close>, \<^verbatim>\<open>app_utils.py\<close> lines 200--234)\<close>

text \<open>
  A PIL image as the fitter sees it: its size and its pixels, the pixel at column \<open>x\<close>
  and row \<open>y\<close> being \<open>getpixel im x y\<close> for \<open>0 \<le> x < width im\<close> and
  \<open>0 \<le> y < height im\<close>.
\<close>

record pil_image =
  width :: nat
  height :: nat
  getpixel :: "int \<Rightarrow> int \<Rightarrow> rgb"

text \<open>
  What the fitter reads from the device configuration object (its class is not among
  the sources): \<^verbatim>\<open>get_config("orientation")\<close>, which is \<open>None\<close> when the key is
  missing, and \<^verbatim>\<open>get_resolution()\<close>, the panel's (width, height).
\<close>

record device_config =
  orientation :: "string option"
  resolution :: "nat \<times> nat"

text \<open>
  The parts of the computation done outside the sources are parameters: the pixel
  contents that Pillow's Lanczos resampling (\<^verbatim>\<open>ImageOps.fit\<close>, \<^verbatim>\<open>Image.resize\<close>) and
  the repository's \<^verbatim>\<open>pad_image_blur\<close> compute for a source image and a target size,
  and the two floating-point operations of lines 222--224: \<open>float_shrink b\<close> is the
  double \<^verbatim>\<open>1 - (b / 100)\<close> and \<open>float_mul n s\<close> the double \<^verbatim>\<open>n * s\<close>, each as the
  rational number it denotes.
\<close>

record pillow =
  fit_pixels :: "pil_image \<Rightarrow> nat \<times> nat \<Rightarrow> int \<Rightarrow> int \<Rightarrow> rgb"
  resize_pixels :: "pil_image \<Rightarrow> nat \<times> nat \<Rightarrow> int \<Rightarrow> int \<Rightarrow> rgb"
  blur_pixels :: "pil_image \<Rightarrow> nat \<times> nat \<Rightarrow> int \<Rightarrow> int \<Rightarrow> rgb"
  float_shrink :: "int \<Rightarrow> rat"
  float_mul :: "nat \<Rightarrow> rat \<Rightarrow> rat"

text \<open>
  \<^verbatim>\<open>ImageOps.fit(img, size, LANCZOS)\<close> returns an image of exactly \<open>size\<close>, also
  for a source without pixels. It divides the target's width by its height and resizes
  to the target, so a target without pixels makes it raise.
\<close>

definition ImageOps_fit :: "pillow \<Rightarrow> pil_image \<Rightarrow> nat \<times> nat \<Rightarrow> error + pil_image" where
  "ImageOps_fit pl im sz =
     (if snd sz = 0 then Inl ZeroDivisionError
      else if fst sz = 0 then Inl ValueError
      else Inr \<lparr>width = fst sz, height = snd sz, getpixel = fit_pixels pl im sz\<rparr>)"

text \<open>
  Modelled from the spec: \<^verbatim>\<open>pad_image_blur\<close> of \<^verbatim>\<open>utils/image_utils.py\<close> is
  imported by the fitter but is not among the sources. By section 4.2 of the
  specification its result fills the target box, the source scaled into the box over a
  blurred copy of the source; the contents are the parameter \<open>blur_pixels\<close>.
\<close>

definition pad_image_blur :: "pillow \<Rightarrow> pil_image \<Rightarrow> nat \<times> nat \<Rightarrow> pil_image" where
  "pad_image_blur pl im sz = \<lparr>width = fst sz, height = snd sz, getpixel = blur_pixels pl im sz\<rparr>"

text \<open>
  \<^verbatim>\<open>im.rotate(90, expand=True)\<close> is the transposition \<^verbatim>\<open>ROTATE_90\<close>: a quarter turn
  counter-clockwise, the size swapped; the source's top right pixel becomes the top left.
\<close>

definition rotate90_expand :: "pil_image \<Rightarrow> pil_image" where
  "rotate90_expand im =
     \<lparr>width = height im, height = width im,
      getpixel = (\<lambda>x y. getpixel im (int (width im) - 1 - y) x)\<rparr>"

text \<open>\<^verbatim>\<open>im.resize((w, h), LANCZOS)\<close> raises \<^verbatim>\<open>ValueError\<close> unless both are at least 1.\<close>

definition Image_resize :: "pillow \<Rightarrow> pil_image \<Rightarrow> int \<times> int \<Rightarrow> error + pil_image" where
  "Image_resize pl im sz =
     (if fst sz < 1 \<or> snd sz < 1 then Inl ValueError
      else Inr \<lparr>width = nat (fst sz), height = nat (snd sz),
                getpixel = resize_pixels pl im (nat (fst sz), nat (snd sz))\<rparr>)"

text \<open>\<^verbatim>\<open>Image.new("RGB", size, color)\<close>.\<close>

definition Image_new_RGB :: "nat \<times> nat \<Rightarrow> rgb \<Rightarrow> pil_image" where
  "Image_new_RGB sz color = \<lparr>width = fst sz, height = snd sz, getpixel = (\<lambda>x y. color)\<rparr>"

text \<open>
  \<^verbatim>\<open>canvas.paste(im, (x0, y0))\<close>: the pixels of \<open>im\<close> replace those of the canvas in
  the box of \<open>im\<close>'s size whose top left corner is \<open>(x0, y0)\<close>; the canvas keeps its size.
\<close>

definition paste :: "pil_image \<Rightarrow> pil_image \<Rightarrow> int \<times> int \<Rightarrow> pil_image" where
  "paste canvas im corner =
     canvas\<lparr>getpixel :=
       (\<lambda>x y. if fst corner \<le> x \<and> x < fst corner + int (width im)
                  \<and> snd corner \<le> y \<and> y < snd corner + int (height im)
               then getpixel im (x - fst corner) (y - snd corner)
               else getpixel canvas x y)\<rparr>"

text \<open>Python's \<^verbatim>\<open>int(x)\<close> on a float: truncation towards zero.\<close>

definition py_int :: "rat \<Rightarrow> int" where
  "py_int x = (if 0 \<le> x then \<lfloor>x\<rfloor> else \<lceil>x\<rceil>)"

text \<open>Lines 205--217: the fit for the orientation.\<close>

definition fit_orientation :: "pillow \<Rightarrow> pil_image \<Rightarrow> device_config \<Rightarrow> error + pil_image" where
  "fit_orientation pl img cfg =
     (let display_size = resolution cfg
      in if orientation cfg = Some ''vertical'' then
           (let target_size = (snd display_size, fst display_size)
            in if width img > height img then
                 (let fitted_img = pad_image_blur pl img target_size
                  in Inr (rotate90_expand fitted_img))
               else
                 (case ImageOps_fit pl img target_size of
                    Inl e \<Rightarrow> Inl e
                  | Inr fitted_img \<Rightarrow> Inr (rotate90_expand fitted_img)))
         else ImageOps_fit pl img display_size)"

text \<open>Lines 219--232: the border.\<close>

definition apply_border :: "pillow \<Rightarrow> pil_image \<Rightarrow> int \<Rightarrow> error + pil_image" where
  "apply_border pl img border_percent =
     (if border_percent > 0 then
        (let canvas_size = (width img, height img);
             shrink_factor = float_shrink pl border_percent;
             new_width = py_int (float_mul pl (fst canvas_size) shrink_factor);
             new_height = py_int (float_mul pl (snd canvas_size) shrink_factor)
         in case Image_resize pl img (new_width, new_height) of
              Inl e \<Rightarrow> Inl e
            | Inr shrunk_image \<Rightarrow>
                (let white_canvas = Image_new_RGB canvas_size (255, 255, 255);
                     paste_x = (int (fst canvas_size) - new_width) div 2;
                     paste_y = (int (snd canvas_size) - new_height) div 2
                 in Inr (paste white_canvas shrunk_image (paste_x, paste_y))))
      else Inr img)"

text \<open>The function is \<^verbatim>\<open>_resize_and_rotate_image\<close> in the source.\<close>

definition resize_and_rotate_image ::
  "pillow \<Rightarrow> pil_image \<Rightarrow> device_config \<Rightarrow> int \<Rightarrow> error + pil_image" where
  "resize_and_rotate_image pl img cfg border_percent =
     (case fit_orientation pl img cfg of
        Inl e \<Rightarrow> Inl e
      | Inr img \<Rightarrow> apply_border pl img border_percent)"

text \<open>
  The sizes lines 223--224 compute for an image of a given width or height, and the
  accuracy floating-point arithmetic is taken to have where a result depends on it: the
  computed product is within a hundredth of the exact one.
\<close>

definition shrunk :: "pillow \<Rightarrow> nat \<Rightarrow> int \<Rightarrow> int" where
  "shrunk pl n border_percent = py_int (float_mul pl n (float_shrink pl border_percent))"

definition float_accurate :: "pillow \<Rightarrow> nat \<Rightarrow> int \<Rightarrow> bool" where
  "float_accurate pl n border_percent \<longleftrightarrow>
     \<bar>float_mul pl n (float_shrink pl border_percent)
        - of_nat n * (1 - of_int border_percent / 100)\<bar> < 1 / 100"

text \<open>Exact arithmetic in place of the floating-point operations, for examples.\<close>

definition exact_pillow :: pillow where
  "exact_pillow =
     \<lparr>fit_pixels = (\<lambda>im sz x y. (0, 0, 0)),
      resize_pixels = (\<lambda>im sz x y. (0, 0, 0)),
      blur_pixels = (\<lambda>im sz x y. (0, 0, 0)),
      float_shrink = (\<lambda>b. 1 - of_int b / 100),
      float_mul = (\<lambda>n s. of_nat n * s)\<rparr>"

section \<open>Freshness gate (\<^verbatim>\<open>get_current_image\<close>, \<^verbatim>\<open>main.py\<close> lines 108--148)\<close>

text \<open>
  What the route reads from outside: whether the image file exists, its modification
  time (\<^verbatim>\<open>os.path.getmtime\<close>, a float, here the rational it denotes), the decoder,
  the server's time zone and three library functions.

  A \<^verbatim>\<open>datetime\<close> without time zone (a naive one) is a date and a time of day and
  nothing more; it is given here by the number of seconds from 1970-01-01 00:00:00 to
  its own year, month, day, hour, minute and second. \<open>strptime s\<close> is
  \<^verbatim>\<open>datetime.strptime(s, '%a, %d %b %Y %H:%M:%S %Z')\<close>: the naive datetime with the
  fields written in \<open>s\<close> (the zone name that \<^verbatim>\<open>%Z\<close> matches is dropped), or \<open>None\<close>
  when it raises \<^verbatim>\<open>ValueError\<close>. For an HTTP-date, which is written in GMT, this number is
  the time the header asserts, in seconds since the epoch. \<open>strftime d\<close> is
  \<^verbatim>\<open>d.strftime('%a, %d %b %Y %H:%M:%S GMT')\<close>: the fields of \<open>d\<close> followed by the
  letters GMT. \<open>utc_offset\<close> is the number of seconds the server's local time is ahead
  of UTC, a zone of fixed offset. \<open>str_of_error e\<close> is \<^verbatim>\<open>str(e)\<close>.
\<close>

record server =
  png_path :: string
  image_exists :: bool
  getmtime :: rat
  image_open :: "string \<Rightarrow> error + rgb_image"
  utc_offset :: int
  strptime :: "string \<Rightarrow> int option"
  strftime :: "int \<Rightarrow> string"
  str_of_error :: "error \<Rightarrow> string"

text \<open>
  \<^verbatim>\<open>d.timestamp()\<close> on a naive datetime takes its fields as local time, and
  \<^verbatim>\<open>datetime.fromtimestamp(t)\<close> is the naive datetime of the local time at \<open>t\<close>.
\<close>

definition naive_timestamp :: "server \<Rightarrow> int \<Rightarrow> int" where
  "naive_timestamp srv d = d - utc_offset srv"

definition fromtimestamp :: "server \<Rightarrow> int \<Rightarrow> int" where
  "fromtimestamp srv t = t + utc_offset srv"

text \<open>
  The request: \<^verbatim>\<open>request.headers.get('If-Modified-Since')\<close> and
  \<^verbatim>\<open>request.args.get('format')\<close>, each \<open>None\<close> when absent.
\<close>

record request =
  if_modified_since :: "string option"
  format_arg :: "string option"

datatype payload =
  Empty
  | Bytes "u8 list"
  | Json_error string
  | File_at string

datatype header_value = Str string | Num nat

record response =
  status :: nat
  payload :: payload
  mimetype :: "string option"
  headers :: "(string \<times> header_value) list"

text \<open>\<^verbatim>\<open>str.lower()\<close>, on ASCII letters.\<close>

definition lower_char :: "char \<Rightarrow> char" where
  "lower_char c =
     (let n = of_char c :: nat in if 65 \<le> n \<and> n \<le> 90 then char_of (n + 32) else c)"

definition lower :: "string \<Rightarrow> string" where
  "lower s = map lower_char s"

text \<open>
  Lines 116--130. The result is \<open>True\<close> where the route returns \<^verbatim>\<open>'', 304\<close>. A missing
  or empty header is falsy, and a header \<^verbatim>\<open>strptime\<close> rejects is passed over.
\<close>

definition not_modified :: "server \<Rightarrow> request \<Rightarrow> bool" where
  "not_modified srv req =
     (let file_mtime = py_int (getmtime srv)
      in case if_modified_since req of
           None \<Rightarrow> False
         | Some hdr \<Rightarrow>
             if hdr = [] then False
             else (case strptime srv hdr of
                     None \<Rightarrow> False
                   | Some client_mtime \<Rightarrow>
                       (let client_mtime_seconds = naive_timestamp srv client_mtime
                        in file_mtime \<le> client_mtime_seconds)))"

text \<open>Lines 132--148: the fresh response.\<close>

definition serve_image :: "server \<Rightarrow> request \<Rightarrow> response" where
  "serve_image srv req =
     (let last_modified = strftime srv (fromtimestamp srv (py_int (getmtime srv)));
          output_format = lower (case format_arg req of None \<Rightarrow> ''spectra6'' | Some f \<Rightarrow> f)
      in if output_format \<in> set [''raw'', ''spectra6''] then
           (case convert_to_display_format (image_open srv) (png_path srv) of
              Inr packed_data \<Rightarrow>
                \<lparr>status = 200, payload = Bytes packed_data,
                 mimetype = Some ''application/octet-stream'',
                 headers = [(''Last-Modified'', Str last_modified),
                            (''Cache-Control'', Str ''no-cache''),
                            (''Content-Length'', Num (length packed_data))]\<rparr>
            | Inl e \<Rightarrow>
                \<lparr>status = 500, payload = Json_error (str_of_error srv e),
                 mimetype = Some ''application/json'', headers = []\<rparr>)
         else
           \<lparr>status = 200, payload = File_at (png_path srv), mimetype = Some ''image/png'',
            headers = [(''Last-Modified'', Str last_modified),
                       (''Cache-Control'', Str ''no-cache'')]\<rparr>)"

definition get_current_image :: "server \<Rightarrow> request \<Rightarrow> response" where
  "get_current_image srv req =
     (if \<not> image_exists srv then
        \<lparr>status = 404, payload = Json_error ''Image not found'',
         mimetype = Some ''application/json'', headers = []\<rparr>
      else if not_modified srv req then
        \<lparr>status = 304, payload = Empty, mimetype = None, headers = []\<rparr>
      else serve_image srv req)"

section \<open>Reading an image (\<^verbatim>\<open>ImageUpload.open_image\<close>, \<^verbatim>\<open>image_upload.py\<close> lines 11--20)\<close>



section \<open>Uploads (\<^verbatim>\<open>handle_request_files\<close>, \<^verbatim>\<open>app_utils.py\<close> lines 146--197)\<close>















section \<open>Example environments\<close>

text \<open>
  Two servers whose image file was last modified half a second after 1700000000
  (Tue, 14 Nov 2023 22:13:20 GMT) and decodes to two pixels: one whose local time is
  UTC and one five hours behind UTC. Their \<open>strptime\<close> knows three header values, and
  their \<open>strftime\<close> the same three datetimes. Last, an upload environment whose decoder
  rejects every file.
\<close>

definition example_strptime :: "string \<Rightarrow> int option" where
  "example_strptime s =
     (if s = ''Tue, 14 Nov 2023 22:13:20 GMT'' then Some 1700000000
      else if s = ''Tue, 14 Nov 2023 22:13:19 GMT'' then Some 1699999999
      else if s = ''Tue, 14 Nov 2023 17:13:20 GMT'' then Some 1699982000
      else None)"

definition example_strftime :: "int \<Rightarrow> string" where
  "example_strftime d =
     (if d = 1700000000 then ''Tue, 14 Nov 2023 22:13:20 GMT''
      else if d = 1699999999 then ''Tue, 14 Nov 2023 22:13:19 GMT''
      else if d = 1699982000 then ''Tue, 14 Nov 2023 17:13:20 GMT''
      else [])"

definition example_server :: server where
  "example_server =
     \<lparr>png_path = ''static/images/current_image.png'',
      image_exists = True,
      getmtime = 3400000001 / 2,
      image_open = (\<lambda>p. Inr [[(255, 0, 0), (0, 0, 255)]]),
      utc_offset = 0,
      strptime = example_strptime,
      strftime = example_strftime,
      str_of_error = (\<lambda>e. ''cannot identify image file'')\<rparr>"

definition eastern_server :: server where
  "eastern_server = example_server\<lparr>utc_offset := - 18000\<rparr>"


section \<open>Properties of the bit packer\<close>

lemma length_every_other: "length (every_other xs) = (length xs + 1) div 2"
  by (induction xs rule: every_other.induct) simp_all

lemma length_every_other_drop: "length (every_other (drop 1 xs)) = length xs div 2"
  by (cases xs) (simp_all add: length_every_other)

lemma every_other_nth:
  "k < (length xs + 1) div 2 \<Longrightarrow> every_other xs ! k = xs ! (2 * k)"
proof (induction xs arbitrary: k rule: every_other.induct)
  case (3 x y xs)
  then show ?case by (cases k) simp_all
qed simp_all

lemma every_other_drop_nth:
  "k < length xs div 2 \<Longrightarrow> every_other (drop 1 xs) ! k = xs ! (2 * k + 1)"
  by (cases xs) (simp_all add: every_other_nth)

lemma nibble_take_bit: "p < 16 \<Longrightarrow> take_bit 4 (p::u8) = p"
  using less_mask_eq [of p 4] by (simp add: take_bit_eq_mask)

lemma nibble_bit: "p < 16 \<Longrightarrow> bit (p::u8) n \<Longrightarrow> n < 4"
  using nibble_take_bit [of p] by (metis bit_take_bit_iff)

lemma high_nibble:
  assumes "p < 16" and "q < 16"
  shows "drop_bit 4 (push_bit 4 (p::u8) OR q) = p"
proof (rule bit_word_eqI)
  fix n assume n: "n < LENGTH(8)"
  show "bit (drop_bit 4 (push_bit 4 p OR q)) n = bit p n"
    using nibble_bit [OF assms(1), of n] nibble_bit [OF assms(2), of "4 + n"] n
    by (auto simp add: bit_simps)
qed

lemma low_nibble:
  assumes "q < 16"
  shows "(push_bit 4 (p::u8) OR q) AND 15 = q"
proof -
  have "(push_bit 4 p OR q) AND mask 4 = q"
  proof (rule bit_word_eqI)
    fix n assume "n < LENGTH(8)"
    show "bit ((push_bit 4 p OR q) AND mask 4) n = bit q n"
      using nibble_bit [OF assms, of n] by (auto simp add: bit_simps)
  qed
  then show ?thesis by (simp add: mask_eq_exp_minus_1)
qed

lemma unpack_Cons: "unpack (b # bs) = drop_bit 4 b # (b AND 15) # unpack bs"
  by (simp add: unpack_def)

lemma unpack_pairs:
  "even (length xs) \<Longrightarrow> \<forall>p \<in> set xs. p < 16 \<Longrightarrow>
   unpack (map2 (OR) (map (push_bit 4) (every_other xs)) (every_other (drop 1 xs))) = xs"
proof (induction xs rule: every_other.induct)
  case 1
  then show ?case by (simp add: unpack_def)
next
  case (2 x)
  then show ?case by simp
next
  case (3 x y xs)
  then have "unpack (map2 (OR) (map (push_bit 4) (every_other xs)) (every_other (drop 1 xs))) = xs"
    by simp
  moreover have "every_other (drop 1 (x # y # xs)) = y # every_other (drop 1 xs)"
    by (cases xs) simp_all
  moreover have "drop_bit 4 (push_bit 4 x OR y) = x" "(push_bit 4 x OR y) AND 15 = y"
    using 3 by (simp_all only: high_nibble low_nibble list.set insert_iff ball_simps)
  ultimately show ?case
    by (simp only: every_other.simps list.map zip_Cons_Cons prod.case unpack_Cons)
qed

lemma pack_pixels_even:
  "even (length (flatten px)) \<Longrightarrow>
   pack_pixels px =
     Inr (map2 (OR) (map (push_bit 4) (every_other (flatten px))) (every_other (drop 1 (flatten px))))"
  by (auto simp add: pack_pixels_def np_bitwise_or_def np_left_shift_def Let_def
      length_every_other length_every_other_drop)

lemma length_flatten_rect:
  "\<forall>row \<in> set px. length row = w \<Longrightarrow> length (flatten px) = w * length px"
  by (induction px) (simp_all add: flatten_def)

text \<open>
  Claim C1. For an index canvas (every entry a 4-bit index) of even pixel count, given as
  \<open>h\<close> rows of \<open>w\<close> pixels, the packer returns a buffer of \<open>(w * h) div 2\<close> bytes; byte
  \<open>k\<close> is \<open>(p0 << 4) | p1\<close> for the pixels \<open>p0\<close>, \<open>p1\<close> at positions \<open>2k\<close> and
  \<open>2k + 1\<close> of the row-major scan; and reading each byte's high nibble, then its low
  nibble, gives the row-major scan of the canvas back.
\<close>

theorem pack_pixels_roundtrip:
  assumes "length px = h" and "\<forall>row \<in> set px. length row = w"
    and "even (w * h)" and "\<forall>p \<in> set (concat px). p < 16"
  shows "\<exists>bs. pack_pixels px = Inr bs \<and> length bs = (w * h) div 2
      \<and> (\<forall>k < length bs. bs ! k = push_bit 4 (concat px ! (2 * k)) OR concat px ! (2 * k + 1))
      \<and> unpack bs = concat px"
proof -
  let ?flat = "flatten px"
  let ?bs = "map2 (OR) (map (push_bit 4) (every_other ?flat)) (every_other (drop 1 ?flat))"
  have len: "length ?flat = w * h"
    using length_flatten_rect [OF assms(2)] assms(1) by simp
  then have ev: "even (length ?flat)"
    using assms(3) by simp
  have 1: "pack_pixels px = Inr ?bs"
    using ev by (rule pack_pixels_even)
  have 2: "length ?bs = (w * h) div 2"
    using ev len by (simp add: length_every_other length_every_other_drop)
  have la: "length (map (push_bit 4) (every_other ?flat)) = (w * h) div 2"
    using ev len by (simp add: length_every_other)
  have lb: "length (every_other (drop 1 ?flat)) = (w * h) div 2"
    unfolding length_every_other_drop len ..
  have 3: "?bs ! k = push_bit 4 (?flat ! (2 * k)) OR ?flat ! (2 * k + 1)" if "k < length ?bs" for k
  proof -
    from that have k: "k < length ?flat div 2"
      unfolding 2 len .
    then have k': "k < (length ?flat + 1) div 2"
      by linarith
    have "?bs ! k = map (push_bit 4) (every_other ?flat) ! k OR every_other (drop 1 ?flat) ! k"
      using k unfolding len by (simp only: nth_map nth_zip la lb length_zip min.idem prod.case)
    also have "map (push_bit 4) (every_other ?flat) ! k = push_bit 4 (every_other ?flat ! k)"
      using k' by (simp only: nth_map length_every_other)
    also have "every_other ?flat ! k = ?flat ! (2 * k)"
      using k' by (rule every_other_nth)
    also have "every_other (drop 1 ?flat) ! k = ?flat ! (2 * k + 1)"
      using k by (rule every_other_drop_nth)
    finally show ?thesis .
  qed
  have 4: "unpack ?bs = ?flat"
    using ev assms(4) by (intro unpack_pairs) (simp_all add: flatten_def)
  from 1 2 3 4 show ?thesis
    by (auto simp add: flatten_def)
qed

theorem pack_pixels_roundtrip_witness:
  "pack_pixels [[1, 2], [3, 5]] = Inr [18, 53] \<and> unpack [18, 53] = [1, 2, 3, 5]"
  using pack_pixels_roundtrip [of "[[1, 2], [3, 5]]" 2 2]
  by (simp add: pack_pixels_def flatten_def np_bitwise_or_def np_left_shift_def unpack_def)

text \<open>
  Claim C8, as the code has it. The packer pads nothing. On an odd pixel count the two
  slices differ in length by one. From five pixels on neither has length 1, and the
  element-wise OR raises \<^verbatim>\<open>ValueError\<close>: no buffer is produced. A single pixel is
  broadcast against the empty slice, which gives the empty buffer; of three pixels the
  middle one is broadcast against the other two, which gives two bytes.
\<close>

theorem pack_pixels_odd:
  "(odd (length (flatten px)) \<and> 5 \<le> length (flatten px) \<longrightarrow> pack_pixels px = Inl ValueError)
   \<and> (\<forall>a. flatten px = [a] \<longrightarrow> pack_pixels px = Inr [])
   \<and> (\<forall>a b c. flatten px = [a, b, c] \<longrightarrow>
         pack_pixels px = Inr [push_bit 4 a OR b, push_bit 4 c OR b])"
proof (intro conjI allI impI)
  assume odd5: "odd (length (flatten px)) \<and> 5 \<le> length (flatten px)"
  let ?n = "length (flatten px)"
  let ?a = "np_left_shift (every_other (flatten px)) 4"
  let ?b = "every_other (drop 1 (flatten px))"
  have a: "length ?a = (?n + 1) div 2"
    by (simp add: np_left_shift_def length_every_other)
  have b: "length ?b = ?n div 2"
    by (rule length_every_other_drop)
  have "length ?a \<noteq> length ?b" "length ?a \<noteq> 1" "length ?b \<noteq> 1"
    unfolding a b using odd5 by presburger+
  then have "np_bitwise_or ?a ?b = Inl ValueError"
    unfolding np_bitwise_or_def by (simp only: if_False)
  then show "pack_pixels px = Inl ValueError"
    unfolding pack_pixels_def Let_def .
next
  fix a assume "flatten px = [a]"
  then show "pack_pixels px = Inr []"
    by (simp add: pack_pixels_def np_bitwise_or_def np_left_shift_def)
next
  fix a b c assume "flatten px = [a, b, c]"
  then show "pack_pixels px = Inr [push_bit 4 a OR b, push_bit 4 c OR b]"
    by (simp add: pack_pixels_def np_bitwise_or_def np_left_shift_def)
qed

theorem pack_pixels_odd_witness:
  "odd (length (flatten [[0, 1, 2, 3, 4 :: u8]])) \<and> pack_pixels [[0, 1, 2, 3, 4]] = Inl ValueError
   \<and> pack_pixels [[5]] = Inr []
   \<and> pack_pixels [[1, 2, 3]] = Inr [18, 50]"
  using pack_pixels_odd [of "[[0, 1, 2, 3, 4]]"] pack_pixels_odd [of "[[5]]"]
    pack_pixels_odd [of "[[1, 2, 3]]"]
  by (simp add: flatten_def)

text \<open>
  Claim C8, as the specification words it, fails: a canvas of one row of five pixels has
  an odd pixel count, and the packer returns no buffer of three bytes for it.
\<close>

theorem pack_pixels_odd_counterexample:
  "\<not> (\<exists>bs. pack_pixels [[0, 1, 2, 3, 4]] = Inr bs \<and> length bs = 3)"
  by (simp add: pack_pixels_def flatten_def np_bitwise_or_def np_left_shift_def)

section \<open>Properties of the palette and the quantizer\<close>

lemma putpalette_zeros: "putpalette (replicate (3 * n) 0) = replicate n (0, 0, 0)"
  by (induction n) (simp_all add: replicate_add [symmetric] del: replicate_Suc, simp add: numeral_3_eq_3)

lemma putpalette_palette_data: "putpalette palette_data = six_colours @ replicate 250 (0, 0, 0)"
proof -
  have "replicate (768 - 18) (0::nat) = replicate (3 * 250) 0"
    by simp
  then show ?thesis
    unfolding palette_data_def six_colours_def by (simp only: append.simps putpalette.simps putpalette_zeros)
qed

lemma upt_6: "[0..<6] = [0, 1, 2, 3, 4, 5]"
  by (simp add: upt_rec)

lemma palette_PALETTE_IMAGE: "palette PALETTE_IMAGE = six_colours @ replicate 250 (0, 0, 0)"
  by (simp add: PALETTE_IMAGE_def create_palette_image_def Let_def upt_6 putpixel_def
      Image_new_P_def putpalette_palette_data)

lemma pixels_PALETTE_IMAGE: "pixels PALETTE_IMAGE = [[0, 1, 2, 3, 4, 5]]"
  by code_simp

lemma nearest_scan_props:
  "(fst (nearest_scan c ps i best) = fst best \<and> snd (nearest_scan c ps i best) = snd best
      \<or> (i \<le> fst (nearest_scan c ps i best) \<and> fst (nearest_scan c ps i best) < i + length ps
          \<and> snd (nearest_scan c ps i best) = dist2 c (of_rgb (ps ! (fst (nearest_scan c ps i best) - i)))
          \<and> snd (nearest_scan c ps i best) < snd best))
   \<and> snd (nearest_scan c ps i best) \<le> snd best
   \<and> (\<forall>p \<in> set ps. snd (nearest_scan c ps i best) \<le> dist2 c (of_rgb p))"
proof (induction ps arbitrary: i best)
  case Nil
  then show ?case by simp
next
  case (Cons p ps)
  show ?case
  proof (cases "dist2 c (of_rgb p) < snd best")
    case True
    from Cons.IH [of "Suc i" "(i, dist2 c (of_rgb p))"] True show ?thesis
      by (auto simp add: nth_Cons' Suc_diff_le)
  next
    case False
    from Cons.IH [of "Suc i" best] False show ?thesis
      by (auto simp add: nth_Cons' Suc_diff_le)
  qed
qed

lemma nearest_props:
  assumes "pal \<noteq> []"
  shows "nearest pal c < length pal"
    and "\<forall>q \<in> set pal. dist2 c (of_rgb (pal ! nearest pal c)) \<le> dist2 c (of_rgb q)"
    and "nearest pal c \<noteq> 0 \<Longrightarrow>
         dist2 c (of_rgb (pal ! nearest pal c)) < dist2 c (of_rgb (pal ! 0))"
proof -
  from assms obtain p ps where pal: "pal = p # ps"
    by (cases pal) auto
  define d0 where "d0 = dist2 c (of_rgb p)"
  define r where "r = nearest_scan c ps (Suc 0) (0, d0)"
  have n: "nearest pal c = fst r"
    by (simp add: nearest_def pal r_def d0_def)
  have P1: "fst r = 0 \<and> snd r = d0
      \<or> Suc 0 \<le> fst r \<and> fst r < Suc (length ps)
          \<and> snd r = dist2 c (of_rgb (ps ! (fst r - Suc 0))) \<and> snd r < d0"
    and P2: "snd r \<le> d0"
    and P3: "\<forall>q \<in> set ps. snd r \<le> dist2 c (of_rgb q)"
    using nearest_scan_props [of c ps "Suc 0" "(0, d0)"] unfolding r_def by simp_all
  have len: "length pal = Suc (length ps)" and hd0: "pal ! 0 = p"
    and st: "set pal = insert p (set ps)"
    and nth: "\<And>k. Suc 0 \<le> k \<Longrightarrow> pal ! k = ps ! (k - Suc 0)"
    unfolding pal by (simp_all add: nth_Cons')
  from P1 have d: "snd r = dist2 c (of_rgb (pal ! fst r))"
    using hd0 nth [of "fst r"] unfolding d0_def by auto
  from P1 show "nearest pal c < length pal"
    unfolding n len by auto
  from P2 P3 show "\<forall>q \<in> set pal. dist2 c (of_rgb (pal ! nearest pal c)) \<le> dist2 c (of_rgb q)"
    unfolding n d [symmetric] st d0_def by simp
  show "dist2 c (of_rgb (pal ! nearest pal c)) < dist2 c (of_rgb (pal ! 0))"
    if "nearest pal c \<noteq> 0"
    using that P1 unfolding n d [symmetric] hd0 d0_def by auto
qed

lemma dist2_zero_iff: "dist2 (of_rgb p) (of_rgb q) = 0 \<longleftrightarrow> p = q"
proof -
  obtain r g b where p: "p = (r, g, b)" by (cases p) auto
  obtain r' g' b' where q: "q = (r', g', b')" by (cases q) auto
  have nn: "0 \<le> x * x" for x :: rat by simp
  have "x * x + y * y + z * z = 0 \<longleftrightarrow> x = 0 \<and> y = 0 \<and> z = 0" for x y z :: rat
    using nn [of x] nn [of y] nn [of z] by (simp add: add_nonneg_eq_0_iff)
  then show ?thesis
    by (simp add: dist2_def csub_def of_rgb_def p q)
qed

lemma dist2_nonneg: "0 \<le> dist2 c d"
  by (cases c, cases d) (simp add: dist2_def csub_def)

lemma nearest_exact:
  assumes "p \<in> set pal"
  shows "pal ! nearest pal (of_rgb p) = p"
proof -
  from assms have ne: "pal \<noteq> []" by auto
  from nearest_props(2) [OF ne, of "of_rgb p"] assms
  have "dist2 (of_rgb p) (of_rgb (pal ! nearest pal (of_rgb p))) \<le> dist2 (of_rgb p) (of_rgb p)"
    by blast
  also have "dist2 (of_rgb p) (of_rgb p) = 0"
    by (simp add: dist2_zero_iff)
  finally have "dist2 (of_rgb p) (of_rgb (pal ! nearest pal (of_rgb p))) = 0"
    using dist2_nonneg [of "of_rgb p" "of_rgb (pal ! nearest pal (of_rgb p))"] by simp
  then show ?thesis
    by (simp add: dist2_zero_iff)
qed

lemma distinct_six_colours: "distinct six_colours" "length six_colours = 6"
  by (simp_all add: six_colours_def)

lemma nearest_PALETTE_less: "nearest (palette PALETTE_IMAGE) c < 6"
proof (rule ccontr)
  let ?pal = "palette PALETTE_IMAGE"
  let ?k = "nearest ?pal c"
  assume "\<not> ?k < 6"
  then have k6: "6 \<le> ?k" by simp
  have ne: "?pal \<noteq> []"
    by (simp add: palette_PALETTE_IMAGE six_colours_def)
  have "?k < length ?pal"
    using ne by (rule nearest_props(1))
  then have "?k < 256"
    by (simp add: palette_PALETTE_IMAGE distinct_six_colours)
  with k6 have "?pal ! ?k = (0, 0, 0)"
    by (simp add: palette_PALETTE_IMAGE nth_append distinct_six_colours)
  moreover have "?pal ! 0 = (0, 0, 0)"
    by (simp add: palette_PALETTE_IMAGE six_colours_def)
  moreover have "dist2 c (of_rgb (?pal ! ?k)) < dist2 c (of_rgb (?pal ! 0))"
    using k6 by (intro nearest_props(3) [OF ne]) simp
  ultimately show False by simp
qed

lemma nearest_PALETTE_exact:
  assumes "m < 6"
  shows "nearest (palette PALETTE_IMAGE) (of_rgb (six_colours ! m)) = m"
proof -
  let ?pal = "palette PALETTE_IMAGE"
  let ?k = "nearest ?pal (of_rgb (six_colours ! m))"
  have nth: "?pal ! j = six_colours ! j" if "j < 6" for j
    using that by (simp add: palette_PALETTE_IMAGE nth_append distinct_six_colours)
  have "six_colours ! m \<in> set ?pal"
    using assms by (simp add: palette_PALETTE_IMAGE distinct_six_colours)
  then have "?pal ! ?k = six_colours ! m"
    by (rule nearest_exact)
  moreover have k: "?k < 6"
    by (rule nearest_PALETTE_less)
  ultimately have "six_colours ! ?k = six_colours ! m"
    by (simp add: nth)
  with k assms show ?thesis
    by (simp add: nth_eq_iff_index_eq distinct_six_colours)
qed

lemma cscale_czero: "cscale k czero = czero"
  by (simp add: cscale_def czero_def)

lemma cadd_czero: "cadd c czero = c"
  by (cases c) (simp add: cadd_def czero_def)

lemma csub_self: "csub c c = czero"
  by (cases c) (simp add: csub_def czero_def)

lemma add_at_czero: "add_at (replicate n czero) i czero = replicate n czero"
  by (simp add: add_at_def cadd_czero list_eq_iff_nth_eq nth_list_update)

lemma err_at_czero: "err_at (replicate n czero) i = czero"
  by (simp add: err_at_def)

lemma dither_row_exact:
  assumes "\<forall>p \<in> set row. p \<in> set pal"
  shows "dither_row pal row x (replicate n czero) (replicate m czero) =
     (map (\<lambda>p. (nearest pal (of_rgb p), czero)) row, replicate m czero)"
  using assms
proof (induction row arbitrary: x)
  case Nil
  then show ?case by simp
next
  case (Cons p ps)
  from Cons.prems have p: "p \<in> set pal" and ps: "\<forall>q \<in> set ps. q \<in> set pal"
    by simp_all
  from p have ne: "pal \<noteq> []" by auto
  have "getcolor pal (nearest pal (of_rgb p)) = p"
    using nearest_props(1) [OF ne, of "of_rgb p"] nearest_exact [OF p]
    by (simp add: getcolor_def)
  then show ?case
    using Cons.IH [OF ps]
    by (simp add: Let_def err_at_czero cadd_czero csub_self cscale_czero add_at_czero)
qed

lemma dither_rows_exact:
  assumes "\<forall>row \<in> set img. \<forall>p \<in> set row. p \<in> set pal"
  shows "dither_rows pal img (replicate n czero) =
     map (map (\<lambda>p. (nearest pal (of_rgb p), czero))) img"
  using assms
proof (induction img arbitrary: n)
  case Nil
  then show ?case by simp
next
  case (Cons row rows)
  then show ?case
    by (simp add: Let_def dither_row_exact)
qed

lemma floyd_steinberg_exact:
  assumes "\<forall>row \<in> set img. \<forall>p \<in> set row. p \<in> set pal"
  shows "floyd_steinberg pal img = map (map (\<lambda>p. (nearest pal (of_rgb p), czero))) img"
  unfolding floyd_steinberg_def using assms by (rule dither_rows_exact)

lemma unat_index: "k < 6 \<Longrightarrow> unat (of_nat k :: u8) = k"
  by (simp add: unsigned_of_nat take_bit_nat_eq_self)

lemma index_le_5: "k < 6 \<Longrightarrow> (of_nat k :: u8) \<le> 5"
  by (simp add: word_le_nat_alt unat_index)

lemma set_palette_PALETTE_IMAGE: "set (palette PALETTE_IMAGE) = set six_colours"
  by (auto simp add: palette_PALETTE_IMAGE six_colours_def)

lemma pixels_quantize_exact:
  assumes "\<forall>row \<in> set img. \<forall>p \<in> set row. p \<in> set (palette PALETTE_IMAGE)"
  shows "pixels (quantize img PALETTE_IMAGE) =
    map (map (\<lambda>p. of_nat (nearest (palette PALETTE_IMAGE) (of_rgb p)))) img"
  by (simp add: quantize_def floyd_steinberg_exact [OF assms] comp_def)

lemma getcolor_nearest_exact:
  assumes "p \<in> set (palette PALETTE_IMAGE)"
  shows "getcolor (palette PALETTE_IMAGE) (unat (of_nat (nearest (palette PALETTE_IMAGE) (of_rgb p)) :: u8)) = p"
proof -
  let ?pal = "palette PALETTE_IMAGE"
  have k: "nearest ?pal (of_rgb p) < 6"
    by (rule nearest_PALETTE_less)
  then have "nearest ?pal (of_rgb p) < length ?pal"
    by (simp add: palette_PALETTE_IMAGE)
  then show ?thesis
    using nearest_exact [OF assms] by (simp add: unat_index [OF k] getcolor_def)
qed

lemma convert_RGB_quantize_exact:
  assumes "\<forall>row \<in> set img. \<forall>p \<in> set row. p \<in> set (palette PALETTE_IMAGE)"
  shows "convert_RGB (quantize img PALETTE_IMAGE) = img"
proof -
  have pal: "palette (quantize img PALETTE_IMAGE) = palette PALETTE_IMAGE"
    by (simp add: quantize_def)
  have "map (\<lambda>p. getcolor (palette PALETTE_IMAGE)
          (unat (of_nat (nearest (palette PALETTE_IMAGE) (of_rgb p)) :: u8))) row = row"
    if "row \<in> set img" for row
    using assms that by (intro map_idI getcolor_nearest_exact) blast
  then show ?thesis
    unfolding convert_RGB_def pal pixels_quantize_exact [OF assms]
    by (simp add: comp_def map_idI)
qed

lemma red_index: "nearest (palette PALETTE_IMAGE) (of_rgb (255, 0, 0)) = 4"
  using nearest_PALETTE_exact [of 4] by (simp add: six_colours_def)

text \<open>
  Claim C4. Quantizing an image whose pixels are all palette colours gives that image
  back (reading the indices through the palette), and every pixel's quantization error
  is zero, so nothing is diffused. In particular a solid (255, 0, 0) image of 10 by 10
  pixels becomes an index canvas of 4s with all errors zero.
\<close>

theorem quantize_palette_idempotent:
  assumes "\<forall>row \<in> set img. \<forall>p \<in> set row. p \<in> set (palette PALETTE_IMAGE)"
  shows "convert_RGB (quantize img PALETTE_IMAGE) = img
    \<and> diffused_errors img PALETTE_IMAGE = map (map (\<lambda>p. (0, 0, 0))) img
    \<and> pixels (quantize (replicate 10 (replicate 10 (255, 0, 0))) PALETTE_IMAGE)
        = replicate 10 (replicate 10 4)
    \<and> diffused_errors (replicate 10 (replicate 10 (255, 0, 0))) PALETTE_IMAGE
        = replicate 10 (replicate 10 (0, 0, 0))"
proof -
  let ?red = "replicate 10 (replicate 10 (255, 0, 0)) :: rgb_image"
  have red: "\<forall>row \<in> set ?red. \<forall>p \<in> set row. p \<in> set (palette PALETTE_IMAGE)"
    by (simp add: set_palette_PALETTE_IMAGE six_colours_def)
  have err: "diffused_errors im PALETTE_IMAGE = map (map (\<lambda>p. (0, 0, 0))) im"
    if "\<forall>row \<in> set im. \<forall>p \<in> set row. p \<in> set (palette PALETTE_IMAGE)" for im
    by (simp add: diffused_errors_def floyd_steinberg_exact [OF that] comp_def czero_def)
  have "pixels (quantize ?red PALETTE_IMAGE) = replicate 10 (replicate 10 4)"
    unfolding pixels_quantize_exact [OF red] by (simp add: red_index)
  moreover have "diffused_errors ?red PALETTE_IMAGE = replicate 10 (replicate 10 (0, 0, 0))"
    unfolding err [OF red] by simp
  ultimately show ?thesis
    using convert_RGB_quantize_exact [OF assms] err [OF assms] by simp
qed

theorem quantize_palette_idempotent_witness:
  "convert_RGB (quantize [[(255, 0, 0), (0, 0, 255)], [(0, 128, 0), (0, 0, 0)]] PALETTE_IMAGE)
     = [[(255, 0, 0), (0, 0, 255)], [(0, 128, 0), (0, 0, 0)]]
   \<and> diffused_errors [[(255, 0, 0), (0, 0, 255)], [(0, 128, 0), (0, 0, 0)]] PALETTE_IMAGE
     = [[(0, 0, 0), (0, 0, 0)], [(0, 0, 0), (0, 0, 0)]]"
  using quantize_palette_idempotent [of "[[(255, 0, 0), (0, 0, 255)], [(0, 128, 0), (0, 0, 0)]]"]
  by (simp add: set_palette_PALETTE_IMAGE six_colours_def)

lemma set_every_other: "set (every_other xs) \<subseteq> set xs"
  by (induction xs rule: every_other.induct) auto

lemma np_bitwise_or_elems:
  assumes "np_bitwise_or (np_left_shift a 4) b = Inr bs" and "y \<in> set bs"
  shows "\<exists>p \<in> set a. \<exists>q \<in> set b. y = push_bit 4 p OR q"
proof -
  let ?a = "np_left_shift a 4"
  have shifted: "\<exists>p \<in> set a. u = push_bit 4 p" if "u \<in> set ?a" for u
    using that by (auto simp add: np_left_shift_def)
  consider (eq) "length ?a = length b" | (left) "length ?a \<noteq> length b" "length ?a = 1"
    | (right) "length ?a \<noteq> length b" "length ?a \<noteq> 1" "length b = 1"
    using assms(1) by (auto simp add: np_bitwise_or_def split: if_splits)
  then have "\<exists>u \<in> set ?a. \<exists>v \<in> set b. y = u OR v"
  proof cases
    case eq
    with assms have "y \<in> set (map2 (OR) ?a b)"
      by (simp add: np_bitwise_or_def)
    then obtain u v where "(u, v) \<in> set (zip ?a b)" "y = u OR v"
      by auto
    then have "u \<in> set ?a" "v \<in> set b" "y = u OR v"
      by (auto dest: set_zip_leftD set_zip_rightD)
    then show ?thesis
      by blast
  next
    case left
    with assms have "y \<in> set (map (\<lambda>v. hd ?a OR v) b)"
      by (simp add: np_bitwise_or_def)
    then obtain v where "v \<in> set b" "y = hd ?a OR v"
      by auto
    moreover from left have "hd ?a \<in> set ?a"
      by (cases ?a) auto
    ultimately show ?thesis
      by blast
  next
    case right
    with assms have "y \<in> set (map (\<lambda>u. u OR hd b) ?a)"
      by (simp add: np_bitwise_or_def)
    then obtain u where "u \<in> set ?a" "y = u OR hd b"
      by auto
    moreover from right have "hd b \<in> set b"
      by (cases b) auto
    ultimately show ?thesis
      by blast
  qed
  then show ?thesis
    using shifted by blast
qed

lemma pack_pixels_nibbles:
  assumes "pack_pixels px = Inr bs" and "\<forall>p \<in> set (concat px). p \<le> 5" and "y \<in> set bs"
  shows "drop_bit 4 y \<le> 5 \<and> y AND 15 \<le> 5"
proof -
  let ?flat = "flatten px"
  from assms(1) have "np_bitwise_or (np_left_shift (every_other ?flat) 4) (every_other (drop 1 ?flat)) = Inr bs"
    by (simp add: pack_pixels_def Let_def)
  from np_bitwise_or_elems [OF this assms(3)]
  obtain p q where p: "p \<in> set (every_other ?flat)" and q: "q \<in> set (every_other (drop 1 ?flat))"
    and y: "y = push_bit 4 p OR q"
    by blast
  from p have pf: "p \<in> set ?flat"
    by (rule subsetD [OF set_every_other])
  from q have "q \<in> set (drop 1 ?flat)"
    by (rule subsetD [OF set_every_other])
  then have qf: "q \<in> set ?flat"
    by (rule in_set_dropD)
  have p5: "p \<le> 5"
    using assms(2) pf unfolding flatten_def by (rule bspec)
  have q5: "q \<le> 5"
    using assms(2) qf unfolding flatten_def by (rule bspec)
  have "p < 16"
    using p5 by (rule order_le_less_trans) simp
  moreover have "q < 16"
    using q5 by (rule order_le_less_trans) simp
  ultimately show ?thesis
    unfolding y using p5 q5 by (simp only: high_nibble low_nibble simp_thms)
qed

lemma dither_row_shape:
  "length (fst (dither_row pal row x cur nxt)) = length row"
  by (induction row arbitrary: x cur nxt) (simp_all add: Let_def)

lemma dither_row_indices:
  assumes "\<And>c. nearest pal c < n"
  shows "\<forall>ie \<in> set (fst (dither_row pal row x cur nxt)). fst ie < n"
  by (induction row arbitrary: x cur nxt) (simp_all add: Let_def assms)

lemma dither_rows_shape: "map length (dither_rows pal img cur) = map length img"
  by (induction img arbitrary: cur) (simp_all add: Let_def dither_row_shape)

lemma dither_rows_indices:
  assumes "\<And>c. nearest pal c < n"
  shows "\<forall>row \<in> set (dither_rows pal img cur). \<forall>ie \<in> set row. fst ie < n"
  by (induction img arbitrary: cur) (simp_all add: Let_def dither_row_indices [OF assms])

lemma length_concat_shape: "map length xs = map length ys \<Longrightarrow> length (concat xs) = length (concat ys)"
  by (simp add: length_concat)

lemma quantize_shape: "length (concat (pixels (quantize img pim))) = length (concat img)"
proof -
  have "map length (pixels (quantize img pim)) = map length img"
    by (simp add: quantize_def floyd_steinberg_def dither_rows_shape comp_def)
  then show ?thesis
    by (rule length_concat_shape)
qed

lemma quantize_indices: "\<forall>p \<in> set (concat (pixels (quantize img PALETTE_IMAGE))). p \<le> 5"
proof
  fix p
  let ?fs = "floyd_steinberg (palette PALETTE_IMAGE) img"
  assume "p \<in> set (concat (pixels (quantize img PALETTE_IMAGE)))"
  then have "p \<in> set (concat (map (map (\<lambda>ie. of_nat (fst ie))) ?fs))"
    by (simp only: quantize_def p_image.select_convs)
  then obtain row ie where row: "row \<in> set ?fs" and ie: "ie \<in> set row"
    and p: "p = of_nat (fst ie)"
    by auto
  have "\<forall>row \<in> set ?fs. \<forall>ie \<in> set row. fst ie < 6"
    unfolding floyd_steinberg_def by (rule dither_rows_indices) (rule nearest_PALETTE_less)
  with row ie have "fst ie < 6"
    by blast
  then show "p \<le> 5"
    unfolding p by (rule index_le_5)
qed

text \<open>
  Claim C10. For every decodable image: if the pixel count is even the conversion returns
  a buffer of half that many bytes; every byte of any buffer the conversion returns has
  both nibbles in 0..5; and every index the quantizer emits is in 0..5.
\<close>

theorem convert_nibbles_valid:
  assumes "opener image_path = Inr img"
  shows "(even (length (concat img)) \<longrightarrow>
           (\<exists>bs. convert_to_display_format opener image_path = Inr bs
              \<and> length bs = length (concat img) div 2))
      \<and> (\<forall>bs. convert_to_display_format opener image_path = Inr bs \<longrightarrow>
           (\<forall>b \<in> set bs. drop_bit 4 b \<le> 5 \<and> b AND 15 \<le> 5))
      \<and> (\<forall>p \<in> set (concat (pixels (quantize img PALETTE_IMAGE))). p \<le> 5)"
proof -
  let ?q = "quantize img PALETTE_IMAGE"
  have conv: "convert_to_display_format opener image_path = pack_pixels (pixels ?q)"
    by (simp add: convert_to_display_format_def resize_and_dither_image_def assms np_array_def)
  have len: "length (flatten (pixels ?q)) = length (concat img)"
    by (simp add: flatten_def quantize_shape)
  have "\<exists>bs. pack_pixels (pixels ?q) = Inr bs \<and> length bs = length (concat img) div 2"
    if "even (length (concat img))"
  proof -
    from that have ev: "even (length (flatten (pixels ?q)))"
      by (simp add: len)
    show ?thesis
      unfolding pack_pixels_even [OF ev] using that
      by (simp add: len length_every_other length_every_other_drop)
  qed
  moreover have "drop_bit 4 b \<le> 5 \<and> b AND 15 \<le> 5"
    if "pack_pixels (pixels ?q) = Inr bs" "b \<in> set bs" for bs b
    using that(1) quantize_indices that(2) by (rule pack_pixels_nibbles)
  ultimately show ?thesis
    unfolding conv using quantize_indices by blast
qed

lemma blue_index: "nearest (palette PALETTE_IMAGE) (of_rgb (0, 0, 255)) = 3"
  using nearest_PALETTE_exact [of 3] by (simp add: six_colours_def)

lemma convert_example:
  "convert_to_display_format (\<lambda>p. Inr [[(255, 0, 0), (0, 0, 255)]]) image_path = Inr [67]"
proof -
  let ?img = "[[(255, 0, 0), (0, 0, 255)]] :: rgb_image"
  have "\<forall>row \<in> set ?img. \<forall>p \<in> set row. p \<in> set (palette PALETTE_IMAGE)"
    by (simp add: set_palette_PALETTE_IMAGE six_colours_def)
  then have q: "pixels (quantize ?img PALETTE_IMAGE) = [[4, 3]]"
    by (simp add: pixels_quantize_exact red_index blue_index)
  show ?thesis
    by (simp add: convert_to_display_format_def resize_and_dither_image_def np_array_def q
        pack_pixels_def flatten_def np_bitwise_or_def np_left_shift_def)
qed

theorem convert_nibbles_valid_witness:
  "convert_to_display_format (\<lambda>p. Inr [[(255, 0, 0), (0, 0, 255)]]) ''current_image.png''
     = Inr [67]
   \<and> drop_bit 4 (67 :: u8) \<le> 5 \<and> (67 :: u8) AND 15 \<le> 5"
proof -
  let ?img = "[[(255, 0, 0), (0, 0, 255)]] :: rgb_image"
  let ?opener = "\<lambda>p :: string. Inr ?img :: error + rgb_image"
  have v: "convert_to_display_format ?opener ''current_image.png'' = Inr [67]"
    by (rule convert_example)
  note T = convert_nibbles_valid [of ?opener "''current_image.png''" ?img, OF refl]
  from T have "\<forall>bs. convert_to_display_format ?opener ''current_image.png'' = Inr bs \<longrightarrow>
           (\<forall>b \<in> set bs. drop_bit 4 b \<le> 5 \<and> b AND 15 \<le> 5)"
    by (rule conjunct2 [THEN conjunct1])
  then have "convert_to_display_format ?opener ''current_image.png'' = Inr [67] \<longrightarrow>
      (\<forall>b \<in> set [67 :: u8]. drop_bit 4 b \<le> 5 \<and> b AND 15 \<le> 5)"
    by (rule spec)
  then have "\<forall>b \<in> set [67 :: u8]. drop_bit 4 b \<le> 5 \<and> b AND 15 \<le> 5"
    using v by (rule mp)
  then have "drop_bit 4 (67 :: u8) \<le> 5 \<and> (67 :: u8) AND 15 \<le> 5"
    by (simp only: list.set ball_simps)
  with v show ?thesis ..
qed

text \<open>
  Claim C2. The palette of \<open>PALETTE_IMAGE\<close> is a constant: its entries 0..5 are Black,
  White, Green (0, 128, 0), Blue, Red and Yellow, the 250 entries after them repeat
  Black, so it holds exactly six colours; and every quantization, whatever the image,
  is done against this palette and returns an image carrying it.
\<close>

theorem palette_fixed:
  "palette PALETTE_IMAGE =
     [(0, 0, 0), (255, 255, 255), (0, 128, 0), (0, 0, 255), (255, 0, 0), (255, 255, 0)]
       @ replicate 250 (0, 0, 0)
   \<and> card (set (palette PALETTE_IMAGE)) = 6
   \<and> pixels PALETTE_IMAGE = [[0, 1, 2, 3, 4, 5]]
   \<and> (\<forall>img. palette (quantize img PALETTE_IMAGE) = palette PALETTE_IMAGE)
   \<and> (\<forall>opener image_path img. opener image_path = Inr img \<longrightarrow>
        resize_and_dither_image opener image_path = Inr (quantize img PALETTE_IMAGE))"
proof (intro conjI allI impI)
  show "palette PALETTE_IMAGE =
     [(0, 0, 0), (255, 255, 255), (0, 128, 0), (0, 0, 255), (255, 0, 0), (255, 255, 0)]
       @ replicate 250 (0, 0, 0)"
    unfolding palette_PALETTE_IMAGE six_colours_def ..
  show "card (set (palette PALETTE_IMAGE)) = 6"
    unfolding set_palette_PALETTE_IMAGE using distinct_six_colours
    by (simp add: distinct_card)
  show "pixels PALETTE_IMAGE = [[0, 1, 2, 3, 4, 5]]"
    by (rule pixels_PALETTE_IMAGE)
  show "palette (quantize img PALETTE_IMAGE) = palette PALETTE_IMAGE" for img
    unfolding quantize_def by (rule p_image.select_convs)
  show "resize_and_dither_image opener image_path = Inr (quantize img PALETTE_IMAGE)"
    if "opener image_path = Inr img" for opener image_path img
    unfolding resize_and_dither_image_def that by (rule sum.case)
qed

theorem palette_fixed_witness:
  "resize_and_dither_image (\<lambda>p. Inr [[(255, 0, 0)]]) ''current_image.png''
     = Inr (quantize [[(255, 0, 0)]] PALETTE_IMAGE)
   \<and> take 6 (palette (quantize [[(255, 0, 0)]] PALETTE_IMAGE))
     = [(0, 0, 0), (255, 255, 255), (0, 128, 0), (0, 0, 255), (255, 0, 0), (255, 255, 0)]"
proof -
  note P1 = palette_fixed [THEN conjunct1]
  note P4 = palette_fixed [THEN conjunct2, THEN conjunct2, THEN conjunct2, THEN conjunct1, rule_format]
  note P5 = palette_fixed [THEN conjunct2, THEN conjunct2, THEN conjunct2, THEN conjunct2, rule_format]
  have 1: "resize_and_dither_image (\<lambda>p. Inr [[(255, 0, 0)]]) ''current_image.png''
     = Inr (quantize [[(255, 0, 0)]] PALETTE_IMAGE)"
    by (rule P5) (rule refl)
  have 2: "take 6 (palette (quantize [[(255, 0, 0)]] PALETTE_IMAGE))
     = [(0, 0, 0), (255, 255, 255), (0, 128, 0), (0, 0, 255), (255, 0, 0), (255, 255, 0)]"
    unfolding P4 P1 by simp
  from 1 2 show ?thesis ..
qed

section \<open>Properties of the geometry fitter\<close>

lemma fit_orientation_size:
  assumes "fit_orientation pl img cfg = Inr out"
  shows "width out = fst (resolution cfg) \<and> height out = snd (resolution cfg)"
  using assms
  by (auto simp add: fit_orientation_def Let_def ImageOps_fit_def pad_image_blur_def
      rotate90_expand_def split: if_splits sum.splits)

lemma apply_border_size:
  assumes "apply_border pl img b = Inr out"
  shows "width out = width img \<and> height out = height img"
  using assms
  by (auto simp add: apply_border_def Let_def Image_resize_def paste_def Image_new_RGB_def
      split: if_splits sum.splits)

lemma fit_orientation_returns:
  assumes "0 < width img" "0 < height img" "0 < fst (resolution cfg)" "0 < snd (resolution cfg)"
  shows "\<exists>out. fit_orientation pl img cfg = Inr out"
  using assms
  by (simp add: fit_orientation_def Let_def ImageOps_fit_def)

lemma apply_border_returns:
  assumes "b \<le> 0 \<or> 1 \<le> shrunk pl (width img) b \<and> 1 \<le> shrunk pl (height img) b"
  shows "\<exists>out. apply_border pl img b = Inr out"
  using assms
  by (auto simp add: apply_border_def Let_def Image_resize_def shrunk_def)

lemma shrunk_positive:
  assumes acc: "float_accurate pl n b" and b: "b < 100" and n: "101 \<le> n"
  shows "1 \<le> shrunk pl n b"
proof -
  let ?f = "float_mul pl n (float_shrink pl b)"
  let ?s = "1 - of_int b / 100 :: rat"
  from b have "b \<le> 99" by simp
  then have "(of_int b :: rat) \<le> 99" by (simp only: of_int_le_numeral_iff)
  then have s: "1 / 100 \<le> ?s" by simp
  from n have "(of_nat 101 :: rat) \<le> of_nat n" by (simp only: of_nat_le_iff)
  then have n': "(101 :: rat) \<le> of_nat n" by simp
  have "101 * (1 / 100) \<le> of_nat n * ?s"
    using n' s by (intro mult_mono) simp_all
  moreover from acc have "of_nat n * ?s - 1 / 100 < ?f"
    unfolding float_accurate_def by linarith
  ultimately have "1 \<le> ?f" by simp
  then show ?thesis
    unfolding shrunk_def py_int_def by (simp add: le_floor_iff)
qed

lemma shrunk_close:
  assumes acc: "float_accurate pl n b" and pos: "1 \<le> shrunk pl n b"
  shows "\<bar>of_int (shrunk pl n b) - of_nat n * (1 - of_int b / 100)\<bar> \<le> (1 :: rat)"
proof -
  let ?f = "float_mul pl n (float_shrink pl b)"
  define r :: rat where "r = of_nat n * (1 - of_int b / 100)"
  define k where "k = shrunk pl n b"
  have f0: "0 \<le> ?f"
  proof (rule ccontr)
    assume "\<not> 0 \<le> ?f"
    then have "?f < 0" by simp
    then have "\<lceil>?f\<rceil> \<le> 0" by (simp add: ceiling_le_iff)
    with \<open>?f < 0\<close> pos show False
      by (simp add: shrunk_def py_int_def)
  qed
  then have k: "k = \<lfloor>?f\<rfloor>"
    by (simp add: k_def shrunk_def py_int_def)
  have lo: "of_int k \<le> ?f" and hi: "?f < of_int k + 1"
    unfolding k by linarith+
  from acc have a1: "?f - r < 1 / 100" and a2: "r - ?f < 1 / 100"
    unfolding float_accurate_def r_def by linarith+
  define m where "m = int n * (100 - b) - 100 * k"
  have m: "of_int m = 100 * (r - of_int k)"
    by (simp add: m_def r_def algebra_simps)
  have "r - of_int k < 1 / 100 + 1"
    using a2 hi by linarith
  then have "100 * (r - of_int k) < 101"
    by simp
  then have "(of_int m :: rat) < 101"
    by (simp only: m)
  then have "m < 101"
    by (simp only: of_int_less_numeral_iff)
  then have "m \<le> 100" by simp
  then have "(of_int m :: rat) \<le> 100"
    by (simp only: of_int_le_numeral_iff)
  then have "r - of_int k \<le> 1"
    unfolding m by simp
  moreover have "of_int k - r \<le> 1"
    using lo a1 by linarith
  ultimately show ?thesis
    unfolding k_def r_def by linarith
qed

text \<open>
  Claim C3. For a non-empty source image and a panel of \<open>W\<close> by \<open>H\<close> pixels, whatever
  the orientation setting and the border percent: every image the fitter returns is
  exactly \<open>W\<close> wide and \<open>H\<close> high. It returns one whenever there is no border or both
  shrunk sizes are at least 1 (otherwise Pillow's resize raises); with a border percent
  in [0, 100) that is so on every panel of at least 101 by 101 pixels, given accurate
  floating-point products.
\<close>

theorem fitted_size:
  assumes "0 < width img" and "0 < height img"
    and "resolution cfg = (W, H)" and "0 < W" and "0 < H"
  shows "(\<forall>out. resize_and_rotate_image pl img cfg b = Inr out \<longrightarrow> width out = W \<and> height out = H)
    \<and> (b \<le> 0 \<or> 1 \<le> shrunk pl W b \<and> 1 \<le> shrunk pl H b \<longrightarrow>
         (\<exists>out. resize_and_rotate_image pl img cfg b = Inr out))
    \<and> (0 \<le> b \<and> b < 100 \<and> 101 \<le> W \<and> 101 \<le> H
         \<and> float_accurate pl W b \<and> float_accurate pl H b \<longrightarrow>
         (\<exists>out. resize_and_rotate_image pl img cfg b = Inr out \<and> width out = W \<and> height out = H))"
proof -
  from fit_orientation_returns [of img cfg pl] assms
  obtain fitted where fitted: "fit_orientation pl img cfg = Inr fitted"
    by auto
  from fit_orientation_size [OF this] assms(3)
  have fsize: "width fitted = W" "height fitted = H"
    by simp_all
  have run: "resize_and_rotate_image pl img cfg b = apply_border pl fitted b"
    by (simp add: resize_and_rotate_image_def fitted)
  have 1: "width out = W \<and> height out = H"
    if "resize_and_rotate_image pl img cfg b = Inr out" for out
    using apply_border_size [of pl fitted b out] that fsize by (simp add: run)
  have 2: "\<exists>out. resize_and_rotate_image pl img cfg b = Inr out"
    if "b \<le> 0 \<or> 1 \<le> shrunk pl W b \<and> 1 \<le> shrunk pl H b"
    using apply_border_returns [of b pl fitted] that fsize by (simp add: run)
  have 3: "\<exists>out. resize_and_rotate_image pl img cfg b = Inr out \<and> width out = W \<and> height out = H"
    if "0 \<le> b \<and> b < 100 \<and> 101 \<le> W \<and> 101 \<le> H
         \<and> float_accurate pl W b \<and> float_accurate pl H b"
  proof -
    from that have "1 \<le> shrunk pl W b" "1 \<le> shrunk pl H b"
      by (simp_all add: shrunk_positive)
    then obtain out where "resize_and_rotate_image pl img cfg b = Inr out"
      using 2 by blast
    with 1 show ?thesis by blast
  qed
  from 1 2 3 show ?thesis by blast
qed

text \<open>
  The branches of lines 205--217. Under vertical orientation the fit is made against
  the swapped target \<open>(H, W)\<close>: a landscape source goes through \<open>pad_image_blur\<close> and
  a portrait or square source through \<open>ImageOps_fit\<close>, and either result is turned by
  90 degrees, which swaps the size back. Under any other orientation the source goes
  through \<open>ImageOps_fit\<close> against \<open>(W, H)\<close> with no rotation. Without a border this is
  the fitter's result. What the two functions put into the pixels is not decided here.
\<close>

lemma fit_orientation_cases:
  assumes "0 < width img" and "0 < height img"
    and "resolution cfg = (W, H)" and "0 < W" and "0 < H"
  shows "(orientation cfg = Some ''vertical'' \<and> height img < width img \<longrightarrow>
            fit_orientation pl img cfg =
              Inr (rotate90_expand \<lparr>width = H, height = W, getpixel = blur_pixels pl img (H, W)\<rparr>))
    \<and> (orientation cfg = Some ''vertical'' \<and> width img \<le> height img \<longrightarrow>
            fit_orientation pl img cfg =
              Inr (rotate90_expand \<lparr>width = H, height = W, getpixel = fit_pixels pl img (H, W)\<rparr>))
    \<and> (orientation cfg \<noteq> Some ''vertical'' \<longrightarrow>
            fit_orientation pl img cfg =
              Inr \<lparr>width = W, height = H, getpixel = fit_pixels pl img (W, H)\<rparr>)
    \<and> (\<forall>im. width (rotate90_expand im) = height im \<and> height (rotate90_expand im) = width im)
    \<and> (b \<le> 0 \<longrightarrow> resize_and_rotate_image pl img cfg b = fit_orientation pl img cfg)"
proof (intro conjI impI allI)
  assume "orientation cfg = Some ''vertical'' \<and> height img < width img"
  then show "fit_orientation pl img cfg =
      Inr (rotate90_expand \<lparr>width = H, height = W, getpixel = blur_pixels pl img (H, W)\<rparr>)"
    using assms by (simp add: fit_orientation_def Let_def pad_image_blur_def)
next
  assume "orientation cfg = Some ''vertical'' \<and> width img \<le> height img"
  then show "fit_orientation pl img cfg =
      Inr (rotate90_expand \<lparr>width = H, height = W, getpixel = fit_pixels pl img (H, W)\<rparr>)"
    using assms by (simp add: fit_orientation_def Let_def ImageOps_fit_def)
next
  assume "orientation cfg \<noteq> Some ''vertical''"
  then show "fit_orientation pl img cfg =
      Inr \<lparr>width = W, height = H, getpixel = fit_pixels pl img (W, H)\<rparr>"
    using assms by (simp add: fit_orientation_def Let_def ImageOps_fit_def)
next
  fix im show "width (rotate90_expand im) = height im"
    by (simp add: rotate90_expand_def)
next
  fix im show "height (rotate90_expand im) = width im"
    by (simp add: rotate90_expand_def)
next
  assume "b \<le> 0"
  then show "resize_and_rotate_image pl img cfg b = fit_orientation pl img cfg"
    by (simp add: resize_and_rotate_image_def apply_border_def split: sum.splits)
qed

text \<open>
  Claim C7. With a border percent \<open>b > 0\<close> and shrunk sizes \<open>nw\<close>, \<open>nh\<close> of at least 1,
  the result has the size of the fitted image; inside the box of size \<open>nw\<close> by \<open>nh\<close>
  at \<open>(x0, y0)\<close> it shows the image resized to that size, and it is white everywhere
  else; the box is centred (the right and bottom margins exceed the left and top ones
  by at most one pixel); and, given accurate floating-point products, \<open>nw\<close> and \<open>nh\<close>
  are within one pixel of \<open>(1 - b/100)\<close> times the fitted width and height.
\<close>

theorem border_centred:
  assumes "0 < b"
    and "nw = shrunk pl (width img) b" and "nh = shrunk pl (height img) b"
    and "1 \<le> nw" and "1 \<le> nh"
    and "x0 = (int (width img) - nw) div 2" and "y0 = (int (height img) - nh) div 2"
  shows "\<exists>out. apply_border pl img b = Inr out
      \<and> width out = width img \<and> height out = height img
      \<and> (\<forall>x y. x0 \<le> x \<and> x < x0 + nw \<and> y0 \<le> y \<and> y < y0 + nh \<longrightarrow>
            getpixel out x y = resize_pixels pl img (nat nw, nat nh) (x - x0) (y - y0))
      \<and> (\<forall>x y. \<not> (x0 \<le> x \<and> x < x0 + nw \<and> y0 \<le> y \<and> y < y0 + nh) \<longrightarrow>
            getpixel out x y = (255, 255, 255))
      \<and> (int (width img) - (x0 + nw)) - x0 \<in> {0, 1}
      \<and> (int (height img) - (y0 + nh)) - y0 \<in> {0, 1}
      \<and> (float_accurate pl (width img) b \<longrightarrow>
            \<bar>of_int nw - of_nat (width img) * (1 - of_int b / 100)\<bar> \<le> (1 :: rat))
      \<and> (float_accurate pl (height img) b \<longrightarrow>
            \<bar>of_int nh - of_nat (height img) * (1 - of_int b / 100)\<bar> \<le> (1 :: rat))"
proof -
  define shrunk_image where "shrunk_image =
    \<lparr>width = nat nw, height = nat nh, getpixel = resize_pixels pl img (nat nw, nat nh)\<rparr>"
  define out where "out = paste (Image_new_RGB (width img, height img) (255, 255, 255)) shrunk_image (x0, y0)"
  have run: "apply_border pl img b = Inr out"
    using assms(1,4,5)
    by (simp add: apply_border_def Let_def Image_resize_def out_def shrunk_image_def
        assms(2,3,6,7) [symmetric] shrunk_def [symmetric])
  have sz: "width out = width img" "height out = height img"
    by (simp_all add: out_def paste_def Image_new_RGB_def)
  have inside: "getpixel out x y = resize_pixels pl img (nat nw, nat nh) (x - x0) (y - y0)"
    if "x0 \<le> x \<and> x < x0 + nw \<and> y0 \<le> y \<and> y < y0 + nh" for x y
    using that assms(4,5) by (simp add: out_def paste_def shrunk_image_def)
  have outside: "getpixel out x y = (255, 255, 255)"
    if "\<not> (x0 \<le> x \<and> x < x0 + nw \<and> y0 \<le> y \<and> y < y0 + nh)" for x y
    using that assms(4,5) by (auto simp add: out_def paste_def shrunk_image_def Image_new_RGB_def)
  have cx: "(int (width img) - (x0 + nw)) - x0 \<in> {0, 1}"
    unfolding assms(6) by (simp, presburger)
  have cy: "(int (height img) - (y0 + nh)) - y0 \<in> {0, 1}"
    unfolding assms(7) by (simp, presburger)
  have ax: "\<bar>of_int nw - of_nat (width img) * (1 - of_int b / 100)\<bar> \<le> (1 :: rat)"
    if "float_accurate pl (width img) b"
    using shrunk_close [OF that] assms(4) unfolding assms(2) by simp
  have ay: "\<bar>of_int nh - of_nat (height img) * (1 - of_int b / 100)\<bar> \<le> (1 :: rat)"
    if "float_accurate pl (height img) b"
    using shrunk_close [OF that] assms(5) unfolding assms(3) by simp
  from run sz inside outside cx cy ax ay show ?thesis
    by blast
qed

lemma float_accurate_exact: "float_accurate exact_pillow n b"
  by (simp add: float_accurate_def exact_pillow_def)

lemma shrunk_exact_800: "shrunk exact_pillow 800 10 = 720"
  by (simp add: shrunk_def exact_pillow_def py_int_def)

lemma shrunk_exact_480: "shrunk exact_pillow 480 10 = 432"
  by (simp add: shrunk_def exact_pillow_def py_int_def)

theorem fitted_size_witness:
  "\<exists>out. resize_and_rotate_image exact_pillow (Image_new_RGB (1600, 1200) (10, 20, 30))
       \<lparr>orientation = Some ''vertical'', resolution = (800, 480)\<rparr> 10 = Inr out
     \<and> width out = 800 \<and> height out = 480"
proof -
  let ?img = "Image_new_RGB (1600, 1200) (10, 20, 30)"
  let ?cfg = "\<lparr>orientation = Some ''vertical'', resolution = (800, 480)\<rparr>"
  have "0 < width ?img" "0 < height ?img" "resolution ?cfg = (800, 480)"
    by (simp_all add: Image_new_RGB_def)
  from fitted_size [OF this, of exact_pillow 10]
  have "(0 :: int) \<le> 10 \<and> (10 :: int) < 100 \<and> (101 :: nat) \<le> 800 \<and> (101 :: nat) \<le> 480
         \<and> float_accurate exact_pillow 800 10 \<and> float_accurate exact_pillow 480 10 \<longrightarrow>
         (\<exists>out. resize_and_rotate_image exact_pillow ?img ?cfg 10 = Inr out
            \<and> width out = 800 \<and> height out = 480)"
    by simp
  then show ?thesis
    by (simp add: float_accurate_exact)
qed

theorem border_centred_witness:
  "\<exists>out. apply_border exact_pillow (Image_new_RGB (800, 480) (10, 20, 30)) 10 = Inr out
     \<and> width out = 800 \<and> height out = 480
     \<and> getpixel out 39 24 = (255, 255, 255) \<and> getpixel out 40 24 = (0, 0, 0)
     \<and> getpixel out 759 455 = (0, 0, 0) \<and> getpixel out 760 455 = (255, 255, 255)
     \<and> \<bar>720 - 800 * (1 - 10 / 100)\<bar> \<le> (1 :: rat)"
proof -
  let ?img = "Image_new_RGB (800, 480) (10, 20, 30)"
  have w: "width ?img = 800" and h: "height ?img = 480"
    by (simp_all add: Image_new_RGB_def)
  have "(0 :: int) < 10" "720 = shrunk exact_pillow (width ?img) 10"
    "432 = shrunk exact_pillow (height ?img) 10" "(1 :: int) \<le> 720" "(1 :: int) \<le> 432"
    "40 = (int (width ?img) - 720) div 2" "24 = (int (height ?img) - 432) div 2"
    by (simp_all add: w h shrunk_exact_800 shrunk_exact_480)
  from border_centred [OF this]
  obtain out where run: "apply_border exact_pillow ?img 10 = Inr out"
    and sz: "width out = width ?img" "height out = height ?img"
    and inside: "\<And>x y. 40 \<le> x \<and> x < 40 + 720 \<and> 24 \<le> y \<and> y < 24 + 432 \<Longrightarrow>
            getpixel out x y = resize_pixels exact_pillow ?img (nat 720, nat 432) (x - 40) (y - 24)"
    and outside: "\<And>x y. \<not> (40 \<le> x \<and> x < 40 + 720 \<and> 24 \<le> y \<and> y < 24 + 432) \<Longrightarrow>
            getpixel out x y = (255, 255, 255)"
    by blast
  have "getpixel out 39 24 = (255, 255, 255)" "getpixel out 760 455 = (255, 255, 255)"
    by (rule outside, simp)+
  moreover have "getpixel out 40 24 = (0, 0, 0)" "getpixel out 759 455 = (0, 0, 0)"
    by (simp_all add: inside exact_pillow_def)
  ultimately show ?thesis
    using run sz by (simp add: w h)
qed

section \<open>Properties of the freshness gate\<close>

text \<open>
  What the gate computes, on any server: with the image file present and \<open>T\<close> its
  modification time truncated to whole seconds, a non-empty header that parses to the
  datetime \<open>g\<close> gets status 304 with an empty body when \<open>T \<le> g - utc_offset\<close>, and the
  fresh response when \<open>g - utc_offset < T\<close>; a header that does not parse and no header
  get the fresh response. A fresh response of status 200 has a body and carries
  Last-Modified, written from \<open>T + utc_offset\<close>; when the conversion succeeds the status
  is 200 and, for the default format, the body is the packed buffer.
\<close>

lemma freshness_gate:
  assumes "image_exists srv" and "T = py_int (getmtime srv)"
  shows "(\<forall>hdr g. if_modified_since req = Some hdr \<and> hdr \<noteq> [] \<and> strptime srv hdr = Some g
              \<and> T \<le> g - utc_offset srv \<longrightarrow>
            get_current_image srv req = \<lparr>status = 304, payload = Empty, mimetype = None, headers = []\<rparr>)
    \<and> (\<forall>hdr g. if_modified_since req = Some hdr \<and> strptime srv hdr = Some g
              \<and> g - utc_offset srv < T \<longrightarrow>
            get_current_image srv req = serve_image srv req)
    \<and> (\<forall>hdr. if_modified_since req = Some hdr \<and> strptime srv hdr = None \<longrightarrow>
            get_current_image srv req = serve_image srv req)
    \<and> (if_modified_since req = None \<longrightarrow> get_current_image srv req = serve_image srv req)
    \<and> (status (serve_image srv req) = 200 \<longrightarrow>
            (''Last-Modified'', Str (strftime srv (T + utc_offset srv)))
              \<in> set (headers (serve_image srv req))
            \<and> payload (serve_image srv req) \<noteq> Empty)
    \<and> (\<forall>bs. convert_to_display_format (image_open srv) (png_path srv) = Inr bs \<longrightarrow>
            status (serve_image srv req) = 200
            \<and> (format_arg req = None \<longrightarrow> payload (serve_image srv req) = Bytes bs))
    \<and> (0 \<le> getmtime srv \<longrightarrow> of_int T \<le> getmtime srv \<and> getmtime srv < of_int T + 1)"
proof (intro conjI allI impI)
  fix hdr g
  assume "if_modified_since req = Some hdr \<and> hdr \<noteq> [] \<and> strptime srv hdr = Some g
      \<and> T \<le> g - utc_offset srv"
  then show "get_current_image srv req = \<lparr>status = 304, payload = Empty, mimetype = None, headers = []\<rparr>"
    using assms by (simp add: get_current_image_def not_modified_def naive_timestamp_def)
next
  fix hdr g
  assume "if_modified_since req = Some hdr \<and> strptime srv hdr = Some g \<and> g - utc_offset srv < T"
  then show "get_current_image srv req = serve_image srv req"
    using assms by (simp add: get_current_image_def not_modified_def naive_timestamp_def)
next
  fix hdr
  assume "if_modified_since req = Some hdr \<and> strptime srv hdr = None"
  then show "get_current_image srv req = serve_image srv req"
    using assms by (simp add: get_current_image_def not_modified_def)
next
  assume "if_modified_since req = None"
  then show "get_current_image srv req = serve_image srv req"
    using assms by (simp add: get_current_image_def not_modified_def)
next
  assume "status (serve_image srv req) = 200"
  then show "(''Last-Modified'', Str (strftime srv (T + utc_offset srv)))
      \<in> set (headers (serve_image srv req))"
    using assms(2) by (simp add: serve_image_def Let_def fromtimestamp_def split: if_splits sum.splits)
next
  assume "status (serve_image srv req) = 200"
  then show "payload (serve_image srv req) \<noteq> Empty"
    by (simp add: serve_image_def Let_def split: if_splits sum.splits)
next
  fix bs
  assume "convert_to_display_format (image_open srv) (png_path srv) = Inr bs"
  then show "status (serve_image srv req) = 200"
    by (simp add: serve_image_def Let_def)
next
  fix bs
  assume "convert_to_display_format (image_open srv) (png_path srv) = Inr bs"
    and "format_arg req = None"
  then show "payload (serve_image srv req) = Bytes bs"
    by (simp add: serve_image_def Let_def lower_def lower_char_def)
next
  assume "0 \<le> getmtime srv"
  then show "of_int T \<le> getmtime srv"
    using assms(2) by (simp add: py_int_def)
next
  assume "0 \<le> getmtime srv"
  then show "getmtime srv < of_int T + 1"
    using assms(2) by (simp add: py_int_def) linarith
qed

text \<open>
  On a server whose local time is UTC the gate compares the time the header asserts
  with \<open>T\<close>, and the marker is the HTTP-date of \<open>T\<close>.
\<close>

lemma freshness_gate_utc:
  assumes "image_exists srv" and "T = py_int (getmtime srv)" and "utc_offset srv = 0"
  shows "(\<forall>hdr g. if_modified_since req = Some hdr \<and> hdr \<noteq> [] \<and> strptime srv hdr = Some g
              \<and> T \<le> g \<longrightarrow>
            get_current_image srv req = \<lparr>status = 304, payload = Empty, mimetype = None, headers = []\<rparr>)
    \<and> (\<forall>hdr g. if_modified_since req = Some hdr \<and> strptime srv hdr = Some g \<and> g < T \<longrightarrow>
            get_current_image srv req = serve_image srv req)
    \<and> (\<forall>hdr. if_modified_since req = Some hdr \<and> strptime srv hdr = None \<longrightarrow>
            get_current_image srv req = serve_image srv req)
    \<and> (status (serve_image srv req) = 200 \<longrightarrow>
            (''Last-Modified'', Str (strftime srv T)) \<in> set (headers (serve_image srv req)))"
  using freshness_gate [OF assms(1,2), of req] by (simp add: assms(3))

lemma py_int_eastern: "py_int (getmtime eastern_server) = 1700000000"
  by (simp add: eastern_server_def example_server_def py_int_def floor_eq_iff)

lemma convert_eastern:
  "convert_to_display_format (image_open eastern_server) (png_path eastern_server) = Inr [67]"
proof -
  have "image_open eastern_server = (\<lambda>p. Inr [[(255, 0, 0), (0, 0, 255)]])"
    by (simp add: eastern_server_def example_server_def)
  then show ?thesis
    by (simp only: convert_example)
qed

text \<open>
  Claim C5 at a failing input. The server's local time is five hours behind UTC and the
  file was modified at 1700000000, that is 22:13:20 GMT. The header asserts 22:13:19
  GMT, one second before the modification, yet the answer is status 304 with an empty
  body: the parsed fields are taken as local time, which makes them 03:13:19 GMT of the
  next day. The marker this server sends with a fresh body reads 17:13:20 GMT, the
  local time of the modification under the letters GMT; a client that sends it back
  gets 304.
\<close>

theorem freshness_gate_local_time:
  "strptime eastern_server ''Tue, 14 Nov 2023 22:13:19 GMT'' = Some 1699999999
   \<and> py_int (getmtime eastern_server) = 1700000000
   \<and> get_current_image eastern_server
        \<lparr>if_modified_since = Some ''Tue, 14 Nov 2023 22:13:19 GMT'', format_arg = None\<rparr>
      = \<lparr>status = 304, payload = Empty, mimetype = None, headers = []\<rparr>
   \<and> get_current_image eastern_server \<lparr>if_modified_since = None, format_arg = None\<rparr>
      = \<lparr>status = 200, payload = Bytes [67], mimetype = Some ''application/octet-stream'',
         headers = [(''Last-Modified'', Str ''Tue, 14 Nov 2023 17:13:20 GMT''),
                    (''Cache-Control'', Str ''no-cache''),
                    (''Content-Length'', Num 1)]\<rparr>
   \<and> get_current_image eastern_server
        \<lparr>if_modified_since = Some ''Tue, 14 Nov 2023 17:13:20 GMT'', format_arg = None\<rparr>
      = \<lparr>status = 304, payload = Empty, mimetype = None, headers = []\<rparr>"
proof (intro conjI)
  have srv: "image_exists eastern_server" "utc_offset eastern_server = - 18000"
    "strptime eastern_server = example_strptime" "strftime eastern_server = example_strftime"
    by (simp_all add: eastern_server_def example_server_def)
  show "strptime eastern_server ''Tue, 14 Nov 2023 22:13:19 GMT'' = Some 1699999999"
    by (simp add: srv example_strptime_def)
  show "py_int (getmtime eastern_server) = 1700000000"
    by (rule py_int_eastern)
  show "get_current_image eastern_server
        \<lparr>if_modified_since = Some ''Tue, 14 Nov 2023 22:13:19 GMT'', format_arg = None\<rparr>
      = \<lparr>status = 304, payload = Empty, mimetype = None, headers = []\<rparr>"
    by (simp add: get_current_image_def not_modified_def naive_timestamp_def srv py_int_eastern
        example_strptime_def)
  show "get_current_image eastern_server \<lparr>if_modified_since = None, format_arg = None\<rparr>
      = \<lparr>status = 200, payload = Bytes [67], mimetype = Some ''application/octet-stream'',
         headers = [(''Last-Modified'', Str ''Tue, 14 Nov 2023 17:13:20 GMT''),
                    (''Cache-Control'', Str ''no-cache''),
                    (''Content-Length'', Num 1)]\<rparr>"
    by (simp add: get_current_image_def not_modified_def serve_image_def Let_def srv
        py_int_eastern convert_eastern fromtimestamp_def example_strftime_def lower_def
        lower_char_def)
  show "get_current_image eastern_server
        \<lparr>if_modified_since = Some ''Tue, 14 Nov 2023 17:13:20 GMT'', format_arg = None\<rparr>
      = \<lparr>status = 304, payload = Empty, mimetype = None, headers = []\<rparr>"
    by (simp add: get_current_image_def not_modified_def naive_timestamp_def srv py_int_eastern
        example_strptime_def)
qed

section \<open>Properties of the handling of undecodable images\<close>






end
